theory Spec2Isabelle
  imports Main "HOL-Library.Word"
begin

section \<open>Values carried by records and column arguments\<close>

text \<open>
  A record maps field names to Go \<open>interface{}\<close> values. The dynamic types that the
  output plugin inspects or produces are listed as constructors: \<open>VNumber\<close> is
  \<open>json.Number\<close> (a string type), \<open>VInt\<close> is Go's \<open>int\<close> (the untyped
  constants \<open>0\<close> and \<open>1\<close> stored in an interface), \<open>VInt64\<close> and \<open>VUint64\<close>
  are what \<open>strconv.ParseInt\<close> and \<open>strconv.ParseUint\<close> return, floats are kept as
  their IEEE bit patterns, \<open>VTime sec nsec\<close> is \<open>time.Unix(sec, nsec)\<close> and
  \<open>VArray t\<close> is \<open>clickhouse.Array\<close> of an empty slice with element type \<open>t\<close>.
\<close>

datatype elem_type =
  TString | TUInt8 | TUInt16 | TUInt32 | TUInt64
  | TInt8 | TInt16 | TInt32 | TInt64 | TFloat32 | TFloat64

datatype val =
  VNil
  | VBool bool
  | VString string
  | VNumber string
  | VInt int
  | VInt64 "64 word"
  | VUint64 "64 word"
  | VFloat32 "32 word"
  | VFloat64 "64 word"
  | VTime int int
  | VArray elem_type
  | VList "val list"
  | VMap "(string \<times> val) list"

text \<open>
  \<open>glog.Fatal\<close> and \<open>glog.Fatalf\<close> log and terminate the process; a failed type
  assertion or a nil dereference panics. Both end the computation and are the left
  summand of every result.
\<close>

datatype abort = Fatal string | Panic string

section \<open>The strconv functions called by the plugin\<close>

text \<open>
  \<open>strconv.ParseUint(s, 10, bitSize)\<close> and \<open>strconv.ParseInt(s, 10, bitSize)\<close> of the
  Go standard library, for the base 10 that every call site passes (so the underscore
  and prefix handling of base 0 does not arise). The error is the \<open>Err\<close> field of the
  returned \<open>*NumError\<close>; \<open>IntSize\<close> is 64.
\<close>

datatype num_error = ErrSyntax | ErrRange | ErrBitSize int

definition lower :: "nat \<Rightarrow> nat" where
  "lower c = or c 32"

definition digit_val :: "char \<Rightarrow> nat option" where
  "digit_val c =
     (let k = of_char c :: nat in
      if 48 \<le> k \<and> k \<le> 57 then Some (k - 48)
      else if 97 \<le> lower k \<and> lower k \<le> 122 then Some (lower k - 97 + 10)
      else None)"

fun ParseUint_loop :: "64 word \<Rightarrow> 64 word \<Rightarrow> 64 word \<Rightarrow> string \<Rightarrow> 64 word \<times> num_error option" where
  "ParseUint_loop cutoff maxVal n [] = (n, None)"
| "ParseUint_loop cutoff maxVal n (c # cs) =
     (case digit_val c of
        None \<Rightarrow> (0, Some ErrSyntax)
      | Some d \<Rightarrow>
          if d \<ge> 10 then (0, Some ErrSyntax)
          else if n \<ge> cutoff then (maxVal, Some ErrRange)
          else
            let n' = n * 10; n1 = n' + of_nat d in
            if n1 < n' \<or> n1 > maxVal then (maxVal, Some ErrRange)
            else ParseUint_loop cutoff maxVal n1 cs)"

definition ParseUint :: "string \<Rightarrow> int \<Rightarrow> 64 word \<times> num_error option" where
  "ParseUint s bitSize =
     (if s = [] then (0, Some ErrSyntax)
      else if bitSize \<noteq> 0 \<and> (bitSize < 0 \<or> bitSize > 64) then (0, Some (ErrBitSize bitSize))
      else
        let bitSize = (if bitSize = 0 then 64 else bitSize);
            cutoff = (- 1) div 10 + 1;
            maxVal = push_bit (nat bitSize) 1 - 1
        in ParseUint_loop cutoff maxVal 0 s)"

definition ParseInt :: "string \<Rightarrow> int \<Rightarrow> 64 word \<times> num_error option" where
  "ParseInt s0 bitSize =
     (if s0 = [] then (0, Some ErrSyntax)
      else
        let neg = (hd s0 = CHR ''-'');
            s = (if hd s0 = CHR ''+'' \<or> hd s0 = CHR ''-'' then tl s0 else s0);
            (un, err) = ParseUint s bitSize
        in
        if err \<noteq> None \<and> err \<noteq> Some ErrRange then (0, err)
        else
          let bitSize = (if bitSize = 0 then 64 else bitSize);
              cutoff = push_bit (nat (bitSize - 1)) 1
          in
          if \<not> neg \<and> un \<ge> cutoff then (cutoff - 1, Some ErrRange)
          else if neg \<and> un > cutoff then (- cutoff, Some ErrRange)
          else (if neg then - un else un, None))"

text \<open>
  \<open>strconv.ParseFloat\<close> is not modelled: the coercion takes it as a parameter that
  returns the bit pattern of the parsed \<open>float64\<close> and the error.
\<close>

type_synonym parse_float = "string \<Rightarrow> int \<Rightarrow> 64 word \<times> num_error option"

section \<open>Type coercion: \<open>convertCkType\<close>\<close>

text \<open>
  The outer \<open>switch ckType\<close>: each case label selects the strconv function and the bit
  size that its block passes. The labels are kept in the order of the source.
\<close>

datatype ck_parse = PInt int | PUint int | PFloat int

definition ck_switch :: "string \<Rightarrow> ck_parse option" where
  "ck_switch ckType =
     (if ckType = ''Int32'' then Some (PInt 32)
      else if ckType = ''UInt32'' then Some (PUint 32)
      else if ckType = ''Int16'' then Some (PInt 16)
      else if ckType = ''UInt16'' then Some (PUint 16)
      else if ckType = ''Float32'' \<or> ckType = ''Decimal32'' then Some (PFloat 32)
      else if ckType = ''Int8'' then Some (PInt 8)
      else if ckType = ''UInt8'' then Some (PUint 8)
      else if ckType = ''Int64'' then Some (PInt 64)
      else if ckType = ''UInt64'' then Some (PUint 64)
      else if ckType = ''Float64'' \<or> ckType = ''Decimal64'' then Some (PFloat 64)
      else if ckType = ''Int256'' then Some (PInt 256)
      else if ckType = ''UInt256'' then Some (PUint 256)
      else None)"

definition covered :: "string list" where
  "covered = [''Int32'', ''UInt32'', ''Int16'', ''UInt16'', ''Float32'', ''Decimal32'',
              ''Int8'', ''UInt8'', ''Int64'', ''UInt64'', ''Float64'', ''Decimal64'',
              ''Int256'', ''UInt256'']"

text \<open>
  \<open>out, err = strconv.Parse...(s, 10, bits)\<close>: the value stored in \<open>out\<close> is the
  \<open>int64\<close>, \<open>uint64\<close> or \<open>float64\<close> that the strconv function returns.
\<close>

definition parse_out :: "parse_float \<Rightarrow> ck_parse \<Rightarrow> string \<Rightarrow> val \<times> num_error option" where
  "parse_out pf p s =
     (case p of
        PInt bits \<Rightarrow> (case ParseInt s bits of (i, e) \<Rightarrow> (VInt64 i, e))
      | PUint bits \<Rightarrow> (case ParseUint s bits of (u, e) \<Rightarrow> (VUint64 u, e))
      | PFloat bits \<Rightarrow> (case pf s bits of (f, e) \<Rightarrow> (VFloat64 f, e)))"

text \<open>
  The \<open>bool\<close> branch returns the constants \<open>1\<close> and \<open>0\<close> (Go \<open>int\<close>) in the integer
  blocks, \<open>float32(1)\<close> and \<open>float32(0)\<close> in the \<open>Float32\<close> block, \<open>float64(1)\<close>
  and \<open>float64(0)\<close> in the \<open>Float64\<close> block.
\<close>

definition bool_out :: "ck_parse \<Rightarrow> bool \<Rightarrow> val" where
  "bool_out p b =
     (case p of
        PInt bits \<Rightarrow> VInt (if b then 1 else 0)
      | PUint bits \<Rightarrow> VInt (if b then 1 else 0)
      | PFloat bits \<Rightarrow>
          if bits = 32 then VFloat32 (if b then 0x3F800000 else 0)
          else VFloat64 (if b then 0x3FF0000000000000 else 0))"

text \<open>
  The inner \<open>switch val.(type)\<close> of one block either returns from the function or
  leaves the block with the named result \<open>err\<close> set by the failed parse (or still
  \<open>nil\<close> when no branch matched the dynamic type).
\<close>

datatype switch_result = Returned val | FellThrough "num_error option"

definition type_switch :: "parse_float \<Rightarrow> ck_parse \<Rightarrow> val \<Rightarrow> switch_result" where
  "type_switch pf p v =
     (case v of
        VNumber s \<Rightarrow>
          (case parse_out pf p s of
             (out, None) \<Rightarrow> Returned out
           | (out, Some e) \<Rightarrow> FellThrough (Some e))
      | VString s \<Rightarrow>
          (case parse_out pf p s of
             (out, None) \<Rightarrow> Returned out
           | (out, Some e) \<Rightarrow> FellThrough (Some e))
      | VBool b \<Rightarrow> Returned (bool_out p b)
      | _ \<Rightarrow> FellThrough None)"

definition fatal_convert :: abort where
  "fatal_convert = Fatal ''convertCkType parse default value error''"

definition convertCkType :: "parse_float \<Rightarrow> string \<Rightarrow> val \<Rightarrow> abort + (val \<times> num_error option)" where
  "convertCkType pf ckType v =
     (case (case ck_switch ckType of
              None \<Rightarrow> FellThrough None
            | Some p \<Rightarrow> type_switch pf p v) of
        Returned out \<Rightarrow> Inr (out, None)
      | FellThrough (Some e) \<Rightarrow> Inl fatal_convert
      | FellThrough None \<Rightarrow> Inr (v, None))"

section \<open>Host selector\<close>

text \<open>
  Modelled from the spec: the round-robin selector built by \<open>NewRRHostSelector\<close> is
  not part of the source file. The spec gives its contract: \<open>next()\<close> returns the
  handle at the current cursor and advances the cursor cyclically, wrapping to 0;
  \<open>size()\<close> returns the replica count. With no handle at the cursor the model
  returns \<open>nil\<close>, on which the caller's type assertion \<open>nextdb.(*sql.DB)\<close> panics.
\<close>

type_synonym handle = nat

record HostSelector =
  hosts :: "handle list"
  cursor :: nat

definition Size :: "HostSelector \<Rightarrow> nat" where
  "Size s = length (hosts s)"

definition Next :: "HostSelector \<Rightarrow> handle option \<times> HostSelector" where
  "Next s =
     (if cursor s < length (hosts s)
      then (Some (hosts s ! cursor s), s\<lparr>cursor := (cursor s + 1) mod length (hosts s)\<rparr>)
      else (None, s))"

section \<open>Schema cache: \<open>setTableDesc\<close> and \<open>setColumnDefault\<close>\<close>

record rowDesc =
  Name :: string
  Type :: string
  DefaultType :: string
  DefaultExpression :: string

text \<open>
  What a replica answers to \<open>desc table\<close>: \<open>db.Query\<close> fails (\<open>None\<close>) or gives rows;
  \<open>rows.Columns()\<close> fails (\<open>None\<close>) or gives the column names; every \<open>rows.Next()\<close>
  is followed by a \<open>rows.Scan\<close> that fails (\<open>None\<close>) or fills one string per column.
\<close>

datatype rows = Rows (Columns: "string list option") (scans: "string list option list")

type_synonym describe = "handle \<Rightarrow> rows option"

definition enum_tag :: "string \<Rightarrow> string" where
  "enum_tag v =
     (if take 6 v = ''Enum16'' then ''Enum16''
      else if take 5 v = ''Enum8'' then ''Enum8''
      else v)"

fun fill_descMap :: "(string \<rightharpoonup> string) \<Rightarrow> string list \<Rightarrow> string list \<Rightarrow> (string \<rightharpoonup> string)" where
  "fill_descMap m (c # cs) (v # vs) =
     fill_descMap (m(c \<mapsto> (if c = ''type'' then enum_tag v else v))) cs vs"
| "fill_descMap m cs vs = m"

text \<open>
  \<open>json.Marshal\<close> of the string map followed by \<open>json.Unmarshal\<close> into \<open>rowDesc\<close>
  copies the entries under the four tagged keys and leaves a missing one empty (the
  strings of a describe answer are valid UTF-8, which the round trip keeps). The
  column names of a describe query are lower case, so the keys are looked up as they
  are written in the struct tags.
\<close>

definition get_key :: "(string \<rightharpoonup> string) \<Rightarrow> string \<Rightarrow> string" where
  "get_key m k = (case m k of None \<Rightarrow> [] | Some v \<Rightarrow> v)"

definition unmarshal_rowDesc :: "(string \<rightharpoonup> string) \<Rightarrow> rowDesc" where
  "unmarshal_rowDesc m =
     \<lparr>Name = get_key m ''name'', Type = get_key m ''type'',
      DefaultType = get_key m ''default_type'',
      DefaultExpression = get_key m ''default_expression''\<rparr>"

fun scan_rows :: "string list \<Rightarrow> string list option list \<Rightarrow> (string \<rightharpoonup> rowDesc)
    \<Rightarrow> abort + (string \<rightharpoonup> rowDesc)" where
  "scan_rows columns [] d = Inr d"
| "scan_rows columns (r # rs) d =
     (case r of
        None \<Rightarrow> Inl (Fatal ''scan rows error'')
      | Some vals \<Rightarrow>
          let rd = unmarshal_rowDesc (fill_descMap Map.empty columns vals)
          in scan_rows columns rs (d(Name rd \<mapsto> rd)))"

text \<open>
  The loop \<open>for i := 0; i < c.dbSelector.Size(); i++\<close>: the first argument counts the
  iterations that are left. A failed query logs and continues; the first replica that
  answers decides the result. When the loop runs out, the function ends and
  \<open>c.desc\<close> is the empty map made at its start.
\<close>

fun setTableDesc_loop :: "describe \<Rightarrow> nat \<Rightarrow> HostSelector
    \<Rightarrow> abort + ((string \<rightharpoonup> rowDesc) \<times> HostSelector)" where
  "setTableDesc_loop q 0 sel = Inr (Map.empty, sel)"
| "setTableDesc_loop q (Suc n) sel =
     (case Next sel of
        (None, sel') \<Rightarrow> Inl (Panic ''interface conversion: interface is nil'')
      | (Some db, sel') \<Rightarrow>
          (case q db of
             None \<Rightarrow> setTableDesc_loop q n sel'
           | Some rws \<Rightarrow>
               (case Columns rws of
                  None \<Rightarrow> Inl (Fatal ''could not get columns from query'')
                | Some columns \<Rightarrow>
                    (case scan_rows columns (scans rws) Map.empty of
                       Inl a \<Rightarrow> Inl a
                     | Inr d \<Rightarrow> Inr (d, sel')))))"

definition setTableDesc :: "describe \<Rightarrow> HostSelector
    \<Rightarrow> abort + ((string \<rightharpoonup> rowDesc) \<times> HostSelector)" where
  "setTableDesc q sel = setTableDesc_loop q (Size sel) sel"

text \<open>The first \<open>switch d.DefaultType\<close>: the pointer \<open>defaultValue\<close>, or a fatal exit.\<close>

definition default_pointer :: "rowDesc \<Rightarrow> abort + string option" where
  "default_pointer d =
     (if DefaultType d = ''DEFAULT'' then Inr (Some (DefaultExpression d))
      else if DefaultType d = ''MATERIALIZED''
        then Inl (Fatal ''parse default value: MATERIALIZED expression not supported'')
      else if DefaultType d = ''ALIAS''
        then Inl (Fatal ''parse default value: ALIAS expression not supported'')
      else if DefaultType d = [] then Inr None
      else Inl (Fatal ''parse default value: only DEFAULT expression supported''))"

definition fatal_default :: abort where
  "fatal_default = Fatal ''parse default value error''"

text \<open>
  The second \<open>switch d.Type\<close>: the value stored under the column name, or \<open>None\<close> for
  the \<open>default\<close> branch, which logs and continues with the next column.
\<close>

definition type_default :: "parse_float \<Rightarrow> string \<Rightarrow> string option \<Rightarrow> abort + val option" where
  "type_default pf t dv =
     (if t = ''String'' \<or> t = ''LowCardinality(String)'' then
        (case dv of None \<Rightarrow> Inr (Some (VString [])) | Some s \<Rightarrow> Inr (Some (VString s)))
      else if t = ''Date'' \<or> t = ''DateTime'' \<or> t = ''DateTime64'' then Inr (Some (VTime 0 0))
      else if t = ''UInt8'' \<or> t = ''UInt16'' \<or> t = ''UInt32'' \<or> t = ''UInt64''
            \<or> t = ''Int8'' \<or> t = ''Int16'' \<or> t = ''Int32'' \<or> t = ''Int64'' then
        (case dv of
           None \<Rightarrow> Inr (Some (VInt 0))
         | Some s \<Rightarrow>
             (case ParseInt s 64 of
                (i, None) \<Rightarrow> Inr (Some (VInt64 i))
              | (i, Some e) \<Rightarrow> Inl fatal_default))
      else if t = ''Float32'' \<or> t = ''Float64'' then
        (case dv of
           None \<Rightarrow> Inr (Some (VFloat32 0))
         | Some s \<Rightarrow>
             (case pf s 64 of
                (f, None) \<Rightarrow> Inr (Some (VFloat64 f))
              | (f, Some e) \<Rightarrow> Inl fatal_default))
      else if t = ''IPv4'' then Inr (Some (VString ''0.0.0.0''))
      else if t = ''IPv6'' then Inr (Some (VString ''::''))
      else if t = ''Array(String)'' \<or> t = ''Array(IPv4)'' \<or> t = ''Array(IPv6)''
            \<or> t = ''Array(Date)'' \<or> t = ''Array(DateTime)'' then Inr (Some (VArray TString))
      else if t = ''Array(UInt8)'' then Inr (Some (VArray TUInt8))
      else if t = ''Array(UInt16)'' then Inr (Some (VArray TUInt16))
      else if t = ''Array(UInt32)'' then Inr (Some (VArray TUInt32))
      else if t = ''Array(UInt64)'' then Inr (Some (VArray TUInt64))
      else if t = ''Array(Int8)'' then Inr (Some (VArray TInt8))
      else if t = ''Array(Int16)'' then Inr (Some (VArray TInt16))
      else if t = ''Array(Int32)'' then Inr (Some (VArray TInt32))
      else if t = ''Array(Int64)'' then Inr (Some (VArray TInt64))
      else if t = ''Array(Float32)'' then Inr (Some (VArray TFloat32))
      else if t = ''Array(Float64)'' then Inr (Some (VArray TFloat64))
      else if t = ''Enum16'' then Inr (Some (VString []))
      else if t = ''Enum8'' then Inr (Some (VString []))
      else Inr None)"

text \<open>
  \<open>for columnName, d := range c.desc\<close> visits every entry of the map once, in an order
  the Go runtime chooses. The loop is modelled over the entries in the order of one run.
\<close>

fun setColumnDefault_loop :: "parse_float \<Rightarrow> (string \<times> rowDesc) list \<Rightarrow> (string \<rightharpoonup> val)
    \<Rightarrow> abort + (string \<rightharpoonup> val)" where
  "setColumnDefault_loop pf [] dvs = Inr dvs"
| "setColumnDefault_loop pf ((columnName, d) # rest) dvs =
     (case default_pointer d of
        Inl a \<Rightarrow> Inl a
      | Inr dv \<Rightarrow>
          (case type_default pf (Type d) dv of
             Inl a \<Rightarrow> Inl a
           | Inr None \<Rightarrow> setColumnDefault_loop pf rest dvs
           | Inr (Some v) \<Rightarrow> setColumnDefault_loop pf rest (dvs(columnName \<mapsto> v))))"

text \<open>
  \<open>range_of m kvs\<close>: the list \<open>kvs\<close> is one possible iteration sequence of the map
  \<open>m\<close>. The runtime's choice is the parameter \<open>rng\<close> of \<open>setColumnDefault\<close>.
\<close>

definition range_of :: "('k \<rightharpoonup> 'v) \<Rightarrow> ('k \<times> 'v) list \<Rightarrow> bool" where
  "range_of m kvs = (distinct (map fst kvs) \<and> map_of kvs = m)"

definition setColumnDefault :: "parse_float \<Rightarrow> describe
    \<Rightarrow> ((string \<rightharpoonup> rowDesc) \<Rightarrow> (string \<times> rowDesc) list) \<Rightarrow> HostSelector
    \<Rightarrow> abort + ((string \<rightharpoonup> rowDesc) \<times> (string \<rightharpoonup> val) \<times> HostSelector)" where
  "setColumnDefault pf q rng sel =
     (case setTableDesc q sel of
        Inl a \<Rightarrow> Inl a
      | Inr (d, sel') \<Rightarrow>
          (case setColumnDefault_loop pf (rng d) Map.empty of
             Inl a \<Rightarrow> Inl a
           | Inr dvs \<Rightarrow> Inr (d, dvs, sel')))"

section \<open>The output instance\<close>

type_synonym event = "string \<rightharpoonup> val"

text \<open>
  The fields of \<open>ClickhouseOutput\<close> that the write pipeline reads or writes
  (\<open>fields_c\<close> is the source's \<open>fields\<close>).
  \<open>bulkChan\<close> holds the batches sent on the channel, oldest first.
\<close>

record ClickhouseOutput =
  bulk_actions :: int
  fields_c :: "string list"
  fieldsLength :: nat
  desc :: "string \<rightharpoonup> rowDesc"
  defaultValue :: "string \<rightharpoonup> val"
  bulkChan :: "event list list"
  events :: "event list"
  execution_id :: "64 word"
  dbSelector :: HostSelector

section \<open>Argument rows\<close>

text \<open>
  The body of \<open>for i, field := range c.fields\<close>: the value assigned to \<open>args[i]\<close>.
  \<open>c.desc[field]\<close> is a nil pointer for a column that is not described, and reading
  its \<open>Type\<close> panics.
\<close>

definition default_arg :: "ClickhouseOutput \<Rightarrow> string \<Rightarrow> val" where
  "default_arg c field =
     (case defaultValue c field of
        Some v3 \<Rightarrow> v3
      | None \<Rightarrow> VString [])"

definition column_arg :: "parse_float \<Rightarrow> ClickhouseOutput \<Rightarrow> event \<Rightarrow> string \<Rightarrow> abort + val" where
  "column_arg pf c event field =
     (case event field of
        None \<Rightarrow> Inr (default_arg c field)
      | Some v1 \<Rightarrow>
          if v1 \<noteq> VNil then
            (case desc c field of
               None \<Rightarrow> Inl (Panic ''nil pointer dereference'')
             | Some ct \<Rightarrow>
                 (case convertCkType pf (Type ct) v1 of
                    Inl a \<Rightarrow> Inl a
                  | Inr (v2, err) \<Rightarrow> if err = None then Inr v2 else Inr v1))
          else Inr (default_arg c field))"

fun fill_args :: "parse_float \<Rightarrow> ClickhouseOutput \<Rightarrow> event \<Rightarrow> val list \<Rightarrow> nat \<Rightarrow> string list
    \<Rightarrow> abort + val list" where
  "fill_args pf c event args i [] = Inr args"
| "fill_args pf c event args i (field # rest) =
     (case column_arg pf c event field of
        Inl a \<Rightarrow> Inl a
      | Inr v \<Rightarrow>
          if i < length args then fill_args pf c event (args[i := v]) (Suc i) rest
          else Inl (Panic ''index out of range''))"

definition build_args :: "parse_float \<Rightarrow> ClickhouseOutput \<Rightarrow> event \<Rightarrow> abort + val list" where
  "build_args pf c event = fill_args pf c event (replicate (fieldsLength c) VNil) 0 (fields_c c)"

section \<open>Transactions\<close>

text \<open>
  The store as the plugin sees it through \<open>database/sql\<close>: every replica holds the
  rows committed to the table. A transaction collects the rows of its \<open>Exec\<close> calls;
  a successful \<open>Commit\<close> appends them to the replica's table, a failed \<open>Commit\<close>
  and \<open>Rollback\<close> drop them, and both calls are without effect on a transaction
  that is already done.
\<close>

type_synonym tables = "handle \<Rightarrow> val list list"

record tx =
  tx_db :: handle
  pending :: "val list list"
  done_tx :: bool

definition tx_Begin :: "handle \<Rightarrow> tx" where
  "tx_Begin h = \<lparr>tx_db = h, pending = [], done_tx = False\<rparr>"

definition tx_Exec :: "tx \<Rightarrow> val list \<Rightarrow> tx" where
  "tx_Exec t args = t\<lparr>pending := pending t @ [args]\<rparr>"

definition tx_Commit :: "bool \<Rightarrow> tx \<Rightarrow> tables \<Rightarrow> tx \<times> tables" where
  "tx_Commit ok t tabs =
     (if done_tx t then (t, tabs)
      else if ok then (t\<lparr>done_tx := True\<rparr>, tabs(tx_db t := tabs (tx_db t) @ pending t))
      else (t\<lparr>done_tx := True\<rparr>, tabs))"

definition tx_Rollback :: "tx \<Rightarrow> tables \<Rightarrow> tx \<times> tables" where
  "tx_Rollback t tabs = (t\<lparr>done_tx := True\<rparr>, tabs)"

text \<open>
  What the replicas do during one \<open>innerFlush\<close>: whether the \<open>k\<close>-th call of
  \<open>Begin\<close> succeeds on the replica it is made on, whether \<open>Prepare\<close> succeeds,
  whether the \<open>Exec\<close> of the \<open>i\<close>-th row succeeds, whether \<open>Commit\<close> succeeds.
\<close>

record replicas =
  begin_ok :: "nat \<Rightarrow> handle \<Rightarrow> bool"
  prepare_ok :: bool
  exec_ok :: "nat \<Rightarrow> bool"
  commit_ok :: bool

section \<open>\<open>innerFlush\<close>\<close>

datatype flush_end =
  Committed | PrepareFailed | ExecFailed nat | CommitFailed | Aborted abort

text \<open>
  \<open>for _, event := range events\<close>: the transaction after the rows that were executed,
  or the way the loop was left.
\<close>

fun exec_rows :: "parse_float \<Rightarrow> ClickhouseOutput \<Rightarrow> replicas \<Rightarrow> nat \<Rightarrow> event list \<Rightarrow> tx
    \<Rightarrow> flush_end + tx" where
  "exec_rows pf c w i [] t = Inr t"
| "exec_rows pf c w i (event # rest) t =
     (case build_args pf c event of
        Inl a \<Rightarrow> Inl (Aborted a)
      | Inr args \<Rightarrow>
          if exec_ok w i then exec_rows pf c w (Suc i) rest (tx_Exec t args)
          else Inl (ExecFailed i))"

text \<open>
  The body of the loop after a successful \<open>Begin\<close>. Every \<open>return\<close> runs the deferred
  \<open>tx.Rollback()\<close>; a fatal exit or a panic ends the process with the transaction
  still open, which the store never commits.
\<close>

definition flush_tx :: "parse_float \<Rightarrow> ClickhouseOutput \<Rightarrow> replicas \<Rightarrow> handle \<Rightarrow> event list
    \<Rightarrow> tables \<Rightarrow> flush_end \<times> tables" where
  "flush_tx pf c w h evs tabs =
     (let t = tx_Begin h in
      if \<not> prepare_ok w then (PrepareFailed, snd (tx_Rollback t tabs))
      else
        (case exec_rows pf c w 0 evs t of
           Inl (Aborted a) \<Rightarrow> (Aborted a, tabs)
         | Inl e \<Rightarrow> (e, snd (tx_Rollback t tabs))
         | Inr t' \<Rightarrow>
             (case tx_Commit (commit_ok w) t' tabs of
                (t'', tabs') \<Rightarrow>
                  (if commit_ok w then Committed else CommitFailed,
                   snd (tx_Rollback t'' tabs')))))"

text \<open>
  The endless \<open>for\<close> loop: \<open>k\<close> counts the calls of \<open>Begin\<close> made so far. A failed
  \<open>Begin\<close> logs and continues with the next replica; nothing bounds the number of
  rounds, so the function is partial and \<open>None\<close> stands for a loop that never ends.
\<close>

partial_function (option) innerFlush_loop :: "parse_float \<Rightarrow> ClickhouseOutput \<Rightarrow> replicas
    \<Rightarrow> event list \<Rightarrow> nat \<Rightarrow> HostSelector \<Rightarrow> tables
    \<Rightarrow> (flush_end \<times> HostSelector \<times> tables) option" where
  "innerFlush_loop pf c w evs k sel tabs =
     (case Next sel of
        (None, sel') \<Rightarrow>
          Some (Aborted (Panic ''interface conversion: interface is nil''), sel', tabs)
      | (Some h, sel') \<Rightarrow>
          if \<not> begin_ok w k h then innerFlush_loop pf c w evs (Suc k) sel' tabs
          else (case flush_tx pf c w h evs tabs of
                  (e, tabs') \<Rightarrow> Some (e, sel', tabs')))"

definition innerFlush :: "parse_float \<Rightarrow> ClickhouseOutput \<Rightarrow> replicas \<Rightarrow> event list \<Rightarrow> tables
    \<Rightarrow> (flush_end \<times> ClickhouseOutput \<times> tables) option" where
  "innerFlush pf c w evs tabs =
     (let c1 = c\<lparr>execution_id := execution_id c + 1\<rparr> in
      case innerFlush_loop pf c1 w evs 0 (dbSelector c1) tabs of
        None \<Rightarrow> None
      | Some (e, sel', tabs') \<Rightarrow> Some (e, c1\<lparr>dbSelector := sel'\<rparr>, tabs'))"

section \<open>Buffer and flush triggers: \<open>Emit\<close> and \<open>flush\<close>\<close>

text \<open>
  \<open>make([]map[string]interface{}, 0, c.bulk_actions)\<close>, the allocation of the next
  buffer: the Go runtime panics for a negative capacity and for a capacity that it
  cannot allocate. \<open>alloc n\<close> says that the runtime can allocate a buffer of
  capacity \<open>n\<close>; \<open>bulk_actions\<close> is read from the configuration without a check.
\<close>

definition make_events :: "(int \<Rightarrow> bool) \<Rightarrow> int \<Rightarrow> abort + event list" where
  "make_events alloc n =
     (if 0 \<le> n \<and> alloc n then Inr []
      else Inl (Panic ''makeslice: cap out of range''))"

text \<open>
  Both functions change \<open>c.events\<close> only while they hold \<open>c.mux\<close>, so each call is
  one step on the buffer; the send on \<open>c.bulkChan\<close> appends the batch to the channel.
  The next buffer is allocated before the send: when the allocation panics, the
  process ends with the mutex held and the batch not sent.
\<close>

definition flush :: "(int \<Rightarrow> bool) \<Rightarrow> ClickhouseOutput \<Rightarrow> abort + ClickhouseOutput" where
  "flush alloc c =
     (if length (events c) > 0 then
        (case make_events alloc (bulk_actions c) of
           Inl a \<Rightarrow> Inl a
         | Inr fresh \<Rightarrow> Inr (c\<lparr>events := fresh, bulkChan := bulkChan c @ [events c]\<rparr>))
      else Inr c)"

definition Emit :: "(int \<Rightarrow> bool) \<Rightarrow> ClickhouseOutput \<Rightarrow> event \<Rightarrow> abort + ClickhouseOutput" where
  "Emit alloc c event =
     (let c1 = c\<lparr>events := events c @ [event]\<rparr> in
      if int (length (events c1)) < bulk_actions c1 then Inr c1
      else
        (case make_events alloc (bulk_actions c1) of
           Inl a \<Rightarrow> Inl a
         | Inr fresh \<Rightarrow> Inr (c1\<lparr>events := fresh, bulkChan := bulkChan c1 @ [events c1]\<rparr>)))"

text \<open>
  A run of the producers and the ticker: submitted records and timer ticks, in the
  order in which they take the mutex. A panic ends the run.
\<close>

datatype action = Submit event | Tick

fun step :: "(int \<Rightarrow> bool) \<Rightarrow> ClickhouseOutput \<Rightarrow> action \<Rightarrow> abort + ClickhouseOutput" where
  "step alloc c (Submit event) = Emit alloc c event"
| "step alloc c Tick = flush alloc c"

fun submitted :: "action list \<Rightarrow> event list" where
  "submitted [] = []"
| "submitted (Submit event # as) = event # submitted as"
| "submitted (Tick # as) = submitted as"

fun run :: "(int \<Rightarrow> bool) \<Rightarrow> ClickhouseOutput \<Rightarrow> action list \<Rightarrow> abort + ClickhouseOutput" where
  "run alloc c [] = Inr c"
| "run alloc c (a # as) =
     (case step alloc c a of
        Inl x \<Rightarrow> Inl x
      | Inr c' \<Rightarrow> run alloc c' as)"

section \<open>Reference tables written after the specification\<close>

text \<open>
  The type families of the default table as the specification names them, to be
  compared with the switch of \<open>setColumnDefault\<close>: the zero value of a store type,
  \<open>None\<close> for a store type outside the families.
\<close>

definition string_like :: "string list" where
  "string_like = [''String'', ''LowCardinality(String)'']"

definition enumerated :: "string list" where
  "enumerated = [''Enum8'', ''Enum16'']"

definition temporal :: "string list" where
  "temporal = [''Date'', ''DateTime'', ''DateTime64'']"

definition integer_family :: "string list" where
  "integer_family = [''Int8'', ''Int16'', ''Int32'', ''Int64'',
                     ''UInt8'', ''UInt16'', ''UInt32'', ''UInt64'']"

definition float_family :: "string list" where
  "float_family = [''Float32'', ''Float64'']"

definition array_types :: "(string \<times> elem_type) list" where
  "array_types =
     [(''Array(String)'', TString), (''Array(IPv4)'', TString), (''Array(IPv6)'', TString),
      (''Array(Date)'', TString), (''Array(DateTime)'', TString),
      (''Array(UInt8)'', TUInt8), (''Array(UInt16)'', TUInt16),
      (''Array(UInt32)'', TUInt32), (''Array(UInt64)'', TUInt64),
      (''Array(Int8)'', TInt8), (''Array(Int16)'', TInt16),
      (''Array(Int32)'', TInt32), (''Array(Int64)'', TInt64),
      (''Array(Float32)'', TFloat32), (''Array(Float64)'', TFloat64)]"

definition spec_zero_value :: "string \<Rightarrow> val option" where
  "spec_zero_value t =
     (if t \<in> set string_like \<or> t \<in> set enumerated then Some (VString [])
      else if t \<in> set temporal then Some (VTime 0 0)
      else if t \<in> set integer_family then Some (VInt 0)
      else if t \<in> set float_family then Some (VFloat32 0)
      else if t = ''IPv4'' then Some (VString ''0.0.0.0'')
      else if t = ''IPv6'' then Some (VString ''::'')
      else (case map_of array_types t of
              Some e \<Rightarrow> Some (VArray e)
            | None \<Rightarrow> None))"

text \<open>The replica that the \<open>k\<close>-th of a row of \<open>Next\<close> calls returns.\<close>

definition host_at :: "HostSelector \<Rightarrow> nat \<Rightarrow> handle" where
  "host_at sel k = hosts sel ! ((cursor sel + k) mod length (hosts sel))"

text \<open>The selector after \<open>k\<close> calls of \<open>Next\<close>.\<close>

definition advance :: "HostSelector \<Rightarrow> nat \<Rightarrow> HostSelector" where
  "advance sel k = sel\<lparr>cursor := (cursor sel + k) mod length (hosts sel)\<rparr>"

section \<open>An example table\<close>

text \<open>
  A table with the columns \<open>id\<close> (\<open>UInt32\<close>), \<open>name\<close> (\<open>String\<close>) and
  \<open>tag\<close> (\<open>UUID\<close>, a type without an entry in the default table), none with a
  default expression; two replicas, of which replica 0 answers neither the describe
  query nor \<open>Begin\<close>; batch capacity 2. \<open>no_float\<close> stands for \<open>ParseFloat\<close> where
  no float is parsed.
\<close>

definition no_float :: parse_float where
  "no_float s bits = (0, Some ErrSyntax)"

definition ex_id :: rowDesc where
  "ex_id = \<lparr>Name = ''id'', Type = ''UInt32'', DefaultType = [], DefaultExpression = []\<rparr>"

definition ex_name :: rowDesc where
  "ex_name = \<lparr>Name = ''name'', Type = ''String'', DefaultType = [], DefaultExpression = []\<rparr>"

definition ex_tag :: rowDesc where
  "ex_tag = \<lparr>Name = ''tag'', Type = ''UUID'', DefaultType = [], DefaultExpression = []\<rparr>"

definition ex_desc :: "string \<rightharpoonup> rowDesc" where
  "ex_desc = [''id'' \<mapsto> ex_id, ''name'' \<mapsto> ex_name, ''tag'' \<mapsto> ex_tag]"

definition ex_describe :: describe where
  "ex_describe h =
     (if h = 0 then None
      else Some (Rows (Some [''name'', ''type'', ''default_type'', ''default_expression''])
                   [Some [''id'', ''UInt32'', [], []],
                    Some [''name'', ''String'', [], []],
                    Some [''tag'', ''UUID'', [], []]]))"

definition ex_range :: "(string \<rightharpoonup> rowDesc) \<Rightarrow> (string \<times> rowDesc) list" where
  "ex_range d = [(''tag'', ex_tag), (''name'', ex_name), (''id'', ex_id)]"

definition ex_selector :: HostSelector where
  "ex_selector = \<lparr>hosts = [0, 1], cursor = 0\<rparr>"

definition ex_defaults :: "string \<rightharpoonup> val" where
  "ex_defaults = [''name'' \<mapsto> VString [], ''id'' \<mapsto> VInt 0]"

definition ex_output :: ClickhouseOutput where
  "ex_output =
     \<lparr>bulk_actions = 2, fields_c = [''id'', ''name'', ''tag''], fieldsLength = 3,
      desc = ex_desc, defaultValue = ex_defaults, bulkChan = [], events = [],
      execution_id = 0, dbSelector = ex_selector\<rparr>"

text \<open>A record with a numeric \<open>id\<close>, an explicit null \<open>name\<close> and no \<open>tag\<close>.\<close>

definition ex_event :: "string \<Rightarrow> event" where
  "ex_event n = [''id'' \<mapsto> VNumber n, ''name'' \<mapsto> VNil]"

text \<open>Replica 1 opens a transaction; the \<open>Exec\<close> of row \<open>bad\<close> fails.\<close>

definition ex_replicas :: "nat \<Rightarrow> replicas" where
  "ex_replicas bad =
     \<lparr>begin_ok = (\<lambda>k h. h = 1), prepare_ok = True, exec_ok = (\<lambda>i. i \<noteq> bad),
      commit_ok = True\<rparr>"

text \<open>No replica opens a transaction.\<close>

definition ex_down :: replicas where
  "ex_down =
     \<lparr>begin_ok = (\<lambda>k h. False), prepare_ok = True, exec_ok = (\<lambda>i. True),
      commit_ok = True\<rparr>"

definition ex_tables :: tables where
  "ex_tables = (\<lambda>h. [])"

text \<open>A runtime that allocates buffers of up to a million records.\<close>

definition ex_alloc :: "int \<Rightarrow> bool" where
  "ex_alloc n = (n \<le> 1000000)"

section \<open>Properties of the coercion\<close>

lemmas ck_defs = convertCkType_def ck_switch_def type_switch_def parse_out_def bool_out_def

lemmas parse_defs = ParseInt_def ParseUint_def digit_val_def lower_def
  word_le_nat_alt word_less_nat_alt

lemma ck_switch_covered: "ck_switch t \<noteq> None \<longleftrightarrow> t \<in> set covered"
  by (simp add: ck_switch_def covered_def)

lemma ParseUint_256: "snd (ParseUint s 256) \<noteq> None"
  by (simp add: ParseUint_def)

lemma ParseInt_256: "snd (ParseInt s 256) \<noteq> None"
  by (auto simp add: ParseInt_def ParseUint_def Let_def split: prod.splits if_splits)

text \<open>
  C2 (the code does otherwise). The claim takes a numeric string to be an accepted
  source for \<open>Int256\<close> and \<open>UInt256\<close>. The two blocks call \<open>strconv.ParseInt\<close> and
  \<open>strconv.ParseUint\<close> with bit size 256, which strconv rejects for every string, so
  \<open>err\<close> is set and the function ends in \<open>glog.Fatalf\<close>: for \<open>"123"\<close> and for every
  other \<open>json.Number\<close> or string.
\<close>

theorem convertCkType_256_string_fatal:
  "convertCkType pf ''Int256'' (VNumber ''123'') = Inl fatal_convert
   \<and> convertCkType pf ''UInt256'' (VNumber ''123'') = Inl fatal_convert
   \<and> convertCkType pf ''Int256'' (VNumber s) = Inl fatal_convert
   \<and> convertCkType pf ''Int256'' (VString s) = Inl fatal_convert
   \<and> convertCkType pf ''UInt256'' (VNumber s) = Inl fatal_convert
   \<and> convertCkType pf ''UInt256'' (VString s) = Inl fatal_convert"
proof -
  have i: "convertCkType pf ''Int256'' (VNumber x) = Inl fatal_convert
         \<and> convertCkType pf ''Int256'' (VString x) = Inl fatal_convert" for x
    using ParseInt_256 [of x] by (auto simp: ck_defs split: prod.splits option.splits)
  have u: "convertCkType pf ''UInt256'' (VNumber x) = Inl fatal_convert
         \<and> convertCkType pf ''UInt256'' (VString x) = Inl fatal_convert" for x
    using ParseUint_256 [of x] by (auto simp: ck_defs split: prod.splits option.splits)
  show ?thesis using i u by blast
qed

text \<open>
  C6. Boolean \<open>true\<close> coerced to each of the eight integer families gives \<open>1\<close> and
  \<open>false\<close> gives \<open>0\<close>; the numeric string \<open>"123"\<close> coerced to \<open>Int16\<close> and to
  \<open>UInt16\<close> gives the integer 123; the numeric string \<open>"999"\<close> coerced to \<open>Int8\<close> and
  to \<open>UInt8\<close> fails, and the failure is the fatal exit.
\<close>

theorem convertCkType_bool_and_numeric_string:
  "map (\<lambda>t. convertCkType pf t (VBool True))
       [''Int8'', ''Int16'', ''Int32'', ''Int64'', ''UInt8'', ''UInt16'', ''UInt32'', ''UInt64'']
     = replicate 8 (Inr (VInt 1, None))
   \<and> map (\<lambda>t. convertCkType pf t (VBool False))
       [''Int8'', ''Int16'', ''Int32'', ''Int64'', ''UInt8'', ''UInt16'', ''UInt32'', ''UInt64'']
     = replicate 8 (Inr (VInt 0, None))
   \<and> convertCkType pf ''Int16'' (VNumber ''123'') = Inr (VInt64 123, None)
   \<and> convertCkType pf ''UInt16'' (VNumber ''123'') = Inr (VUint64 123, None)
   \<and> convertCkType pf ''Int8'' (VNumber ''999'') = Inl fatal_convert
   \<and> convertCkType pf ''UInt8'' (VNumber ''999'') = Inl fatal_convert"
proof -
  have t: "map (\<lambda>t. convertCkType pf t (VBool True))
       [''Int8'', ''Int16'', ''Int32'', ''Int64'', ''UInt8'', ''UInt16'', ''UInt32'', ''UInt64'']
     = replicate 8 (Inr (VInt 1, None))"
    by (simp add: ck_defs numeral_eq_Suc)
  have f: "map (\<lambda>t. convertCkType pf t (VBool False))
       [''Int8'', ''Int16'', ''Int32'', ''Int64'', ''UInt8'', ''UInt16'', ''UInt32'', ''UInt64'']
     = replicate 8 (Inr (VInt 0, None))"
    by (simp add: ck_defs numeral_eq_Suc)
  have a: "convertCkType pf ''Int16'' (VNumber ''123'') = Inr (VInt64 123, None)"
    by (simp add: ck_defs parse_defs)
  have b: "convertCkType pf ''UInt16'' (VNumber ''123'') = Inr (VUint64 123, None)"
    by (simp add: ck_defs parse_defs)
  have c: "convertCkType pf ''Int8'' (VNumber ''999'') = Inl fatal_convert"
    by (simp add: ck_defs parse_defs)
  have d: "convertCkType pf ''UInt8'' (VNumber ''999'') = Inl fatal_convert"
    by (simp add: ck_defs parse_defs)
  show ?thesis using t f a b c d by blast
qed

text \<open>
  C7. For a store type with a block in the switch (\<open>ck_switch\<close> finds its parser) and
  a \<open>json.Number\<close> or string value, a parse that returns an error ends in the fatal
  exit: no value is returned.
\<close>

theorem convertCkType_parse_failure_fatal:
  assumes "ck_switch ckType = Some p"
    and "v = VNumber s \<or> v = VString s"
    and "snd (parse_out pf p s) = Some e"
  shows "convertCkType pf ckType v = Inl fatal_convert"
  using assms
  by (auto simp: convertCkType_def type_switch_def split: prod.splits option.splits)

theorem convertCkType_parse_failure_fatal_witness:
  "ck_switch ''Int8'' = Some (PInt 8)
   \<and> snd (parse_out (\<lambda>s b. (0, None)) (PInt 8) ''999'') = Some ErrRange
   \<and> convertCkType (\<lambda>s b. (0, None)) ''Int8'' (VString ''999'') = Inl fatal_convert"
proof -
  have h1: "ck_switch ''Int8'' = Some (PInt 8)"
    by (simp add: ck_switch_def)
  have h2: "VString ''999'' = VNumber ''999'' \<or> VString ''999'' = VString ''999''"
    by simp
  have h3: "snd (parse_out (\<lambda>s b. (0, None)) (PInt 8) ''999'') = Some ErrRange"
    by (simp add: parse_out_def parse_defs)
  show ?thesis
    using convertCkType_parse_failure_fatal [OF h1 h2 h3] h1 h3 by simp
qed

text \<open>
  C10. For a store type that is none of the case labels of the switch, the coercion
  returns the input value as it is, with a nil error, whatever the value.
\<close>

theorem convertCkType_uncovered_identity:
  "ckType \<notin> set covered \<Longrightarrow> convertCkType pf ckType v = Inr (v, None)"
  using ck_switch_covered [of ckType] by (auto simp: convertCkType_def)

theorem convertCkType_uncovered_identity_witness:
  "''String'' \<notin> set covered
   \<and> convertCkType (\<lambda>s b. (0, None)) ''String'' (VList [VNumber ''1'', VNil])
       = Inr (VList [VNumber ''1'', VNil], None)"
proof -
  have h: "''String'' \<notin> set covered"
    by (simp add: covered_def)
  show ?thesis
    using convertCkType_uncovered_identity [OF h] h by simp
qed

section \<open>Properties of the schema cache\<close>

lemmas ex_defs = ex_output_def ex_desc_def ex_defaults_def ex_selector_def ex_event_def
  ex_replicas_def ex_tables_def ex_id_def ex_name_def ex_tag_def ex_describe_def ex_range_def
  ex_down_def no_float_def

lemma Next_valid:
  "cursor sel < length (hosts sel) \<Longrightarrow> Next sel = (Some (host_at sel 0), advance sel (Suc 0))"
  by (simp add: Next_def host_at_def advance_def)

lemma advance_valid:
  "cursor sel < length (hosts sel) \<Longrightarrow> cursor (advance sel k) < length (hosts (advance sel k))"
  by (cases "hosts sel") (simp_all add: advance_def)

lemma host_at_advance: "host_at (advance sel (Suc 0)) j = host_at sel (Suc j)"
  by (simp add: host_at_def advance_def mod_add_left_eq)

lemma advance_advance: "advance (advance sel (Suc 0)) k = advance sel (Suc k)"
  by (simp add: advance_def mod_add_left_eq)

text \<open>
  When no replica answers the describe query, the loop of \<open>setTableDesc\<close> uses up its
  rounds and the function returns the empty description; nothing is fatal.
\<close>

lemma setTableDesc_loop_no_response:
  "cursor sel < length (hosts sel) \<Longrightarrow> \<forall>k. q (host_at sel k) = None \<Longrightarrow>
   setTableDesc_loop q n sel = Inr (Map.empty, advance sel n)"
proof (induction n arbitrary: sel)
  case 0
  then show ?case by (simp add: advance_def)
next
  case (Suc n)
  from Suc.prems(2) have "\<forall>k. q (host_at (advance sel (Suc 0)) k) = None"
    by (simp add: host_at_advance)
  from Suc.IH [OF advance_valid [OF Suc.prems(1)] this] Suc.prems
  show ?case by (simp add: Next_valid advance_advance)
qed

text \<open>
  C1 (the code does otherwise). The claim has startup abort when the describe query
  fails on every replica. With two replicas that both fail the query,
  \<open>setTableDesc\<close> returns normally with the empty description, and
  \<open>setColumnDefault\<close> returns normally with the empty description and the empty
  default table: no \<open>glog.Fatal\<close> is reached and startup goes on with no columns.
\<close>

theorem setTableDesc_all_queries_fail:
  "setTableDesc (\<lambda>h. None) \<lparr>hosts = [0, 1], cursor = 0\<rparr>
     = Inr (Map.empty, \<lparr>hosts = [0, 1], cursor = 0\<rparr>)
   \<and> setColumnDefault pf (\<lambda>h. None) (\<lambda>d. []) \<lparr>hosts = [0, 1], cursor = 0\<rparr>
     = Inr (Map.empty, Map.empty, \<lparr>hosts = [0, 1], cursor = 0\<rparr>)"
  by (simp add: setColumnDefault_def setTableDesc_def Size_def Next_def numeral_2_eq_2)

lemma type_default_zero: "type_default pf t None = Inr (spec_zero_value t)"
  by (simp add: type_default_def spec_zero_value_def string_like_def enumerated_def temporal_def
      integer_family_def float_family_def array_types_def)

lemma setColumnDefault_loop_entry:
  "setColumnDefault_loop pf cols dvs = Inr dvs' \<Longrightarrow> distinct (map fst cols) \<Longrightarrow>
   (n \<notin> fst ` set cols \<longrightarrow> dvs' n = dvs n)
   \<and> (\<forall>d. (n, d) \<in> set cols \<longrightarrow>
        (\<exists>dp r. default_pointer d = Inr dp \<and> type_default pf (Type d) dp = Inr r
           \<and> dvs' n = (case r of None \<Rightarrow> dvs n | Some v \<Rightarrow> Some v)))"
proof (induction cols arbitrary: dvs)
  case Nil
  then show ?case by simp
next
  case (Cons a cols)
  obtain m d0 where a: "a = (m, d0)" by (cases a)
  from Cons.prems(1) a obtain dp r where dp: "default_pointer d0 = Inr dp"
    and r: "type_default pf (Type d0) dp = Inr r"
    and rest: "setColumnDefault_loop pf cols (case r of None \<Rightarrow> dvs | Some v \<Rightarrow> dvs(m \<mapsto> v)) = Inr dvs'"
    by (auto split: sum.splits option.splits)
  from Cons.prems(2) a have dist: "distinct (map fst cols)" and fresh: "m \<notin> fst ` set cols"
    by auto
  note IH = Cons.IH [OF rest dist]
  show ?case
  proof (cases "n = m")
    case True
    with IH fresh have "dvs' n = (case r of None \<Rightarrow> dvs | Some v \<Rightarrow> dvs(m \<mapsto> v)) n" by simp
    with True have "dvs' n = (case r of None \<Rightarrow> dvs n | Some v \<Rightarrow> Some v)"
      by (simp split: option.splits)
    moreover have "d = d0" if "(n, d) \<in> set (a # cols)" for d
      using that True fresh a by (auto simp: image_iff)
    ultimately show ?thesis using dp r True a by auto
  next
    case False
    then have same: "(case r of None \<Rightarrow> dvs | Some v \<Rightarrow> dvs(m \<mapsto> v)) n = dvs n"
      by (simp split: option.splits)
    from False a have mem: "(n, d) \<in> set (a # cols) \<longleftrightarrow> (n, d) \<in> set cols" for d
      by auto
    from False a have img: "n \<notin> fst ` set (a # cols) \<longleftrightarrow> n \<notin> fst ` set cols"
      by auto
    from IH show ?thesis unfolding mem img same .
  qed
qed

lemma ex_setColumnDefault:
  "setColumnDefault no_float ex_describe ex_range ex_selector
     = Inr (ex_desc, ex_defaults, ex_selector)"
  by (simp add: setColumnDefault_def setTableDesc_def Size_def Next_def numeral_2_eq_2 ex_defs
      unmarshal_rowDesc_def get_key_def enum_tag_def default_pointer_def type_default_def)

text \<open>
  C9. When \<open>setColumnDefault\<close> returns, every described column without a default
  expression (\<open>DefaultType\<close> empty) has in the default table the zero value of its
  type family: the empty string for string-like and enumerated types, the epoch for
  temporal types, \<open>0\<close> for the integer and floating-point families, \<open>"0.0.0.0"\<close> for
  \<open>IPv4\<close>, \<open>"::"\<close> for \<open>IPv6\<close>, an empty typed array for the array types; a column of
  any other store type has no entry. The families are those of \<open>spec_zero_value\<close>.
\<close>

theorem setColumnDefault_zero_values:
  assumes "setColumnDefault pf q rng sel = Inr (d, dvs, sel')"
    and "range_of d (rng d)"
    and "d columnName = Some rd"
    and "DefaultType rd = []"
  shows "dvs columnName = spec_zero_value (Type rd)"
proof -
  from assms(1) have loop: "setColumnDefault_loop pf (rng d) Map.empty = Inr dvs"
    by (auto simp: setColumnDefault_def split: sum.splits prod.splits)
  from assms(2) have dist: "distinct (map fst (rng d))" and "map_of (rng d) = d"
    by (simp_all add: range_of_def)
  with assms(3) have mem: "(columnName, rd) \<in> set (rng d)"
    by (metis map_of_SomeD)
  from setColumnDefault_loop_entry [OF loop dist, of columnName, THEN conjunct2, rule_format, OF mem]
  obtain dp r where dp: "default_pointer rd = Inr dp"
    and r: "type_default pf (Type rd) dp = Inr r"
    and v: "dvs columnName = (case r of None \<Rightarrow> None | Some v \<Rightarrow> Some v)"
    by blast
  from dp assms(4) have "dp = None" by (simp add: default_pointer_def)
  with r type_default_zero [of pf "Type rd"] have "r = spec_zero_value (Type rd)" by simp
  with v show ?thesis by (simp split: option.splits)
qed

theorem setColumnDefault_zero_values_witness:
  "setColumnDefault no_float ex_describe ex_range ex_selector
     = Inr (ex_desc, ex_defaults, ex_selector)
   \<and> range_of ex_desc (ex_range ex_desc)
   \<and> ex_desc ''id'' = Some ex_id \<and> ex_desc ''tag'' = Some ex_tag
   \<and> DefaultType ex_id = [] \<and> DefaultType ex_tag = []
   \<and> ex_defaults ''id'' = Some (VInt 0) \<and> spec_zero_value (Type ex_id) = Some (VInt 0)
   \<and> ex_defaults ''tag'' = None \<and> spec_zero_value (Type ex_tag) = None"
proof -
  have r: "range_of ex_desc (ex_range ex_desc)"
    by (simp add: range_of_def ex_defs)
  have i: "ex_desc ''id'' = Some ex_id" and t: "ex_desc ''tag'' = Some ex_tag"
    by (simp_all add: ex_desc_def)
  have di: "DefaultType ex_id = []" and dt: "DefaultType ex_tag = []"
    by (simp_all add: ex_id_def ex_tag_def)
  have vi: "ex_defaults ''id'' = Some (VInt 0)" and vt: "ex_defaults ''tag'' = None"
    by (simp_all add: ex_defaults_def)
  note zi = setColumnDefault_zero_values [OF ex_setColumnDefault r i di]
  note zt = setColumnDefault_zero_values [OF ex_setColumnDefault r t dt]
  from zi zt vi vt ex_setColumnDefault r i t di dt show ?thesis by simp
qed

section \<open>Properties of the argument rows\<close>

lemma column_arg_missing:
  "event field = None \<or> event field = Some VNil \<Longrightarrow>
   column_arg pf c event field = Inr (default_arg c field)"
  by (auto simp: column_arg_def)

lemma fill_args_nth:
  "fill_args pf c event args i fs = Inr args' \<Longrightarrow>
     length args' = length args
     \<and> (\<forall>j<length fs. i + j < length args
            \<and> column_arg pf c event (fs ! j) = Inr (args' ! (i + j)))
     \<and> (\<forall>j<i. args' ! j = args ! j)"
proof (induction fs arbitrary: args i)
  case Nil
  then show ?case by simp
next
  case (Cons f fs)
  from Cons.prems obtain v where v: "column_arg pf c event f = Inr v"
    and i: "i < length args"
    and rest: "fill_args pf c event (args[i := v]) (Suc i) fs = Inr args'"
    by (auto split: sum.splits if_splits)
  from Cons.IH [OF rest] have len: "length args' = length args"
    and cols: "\<forall>j<length fs. Suc i + j < length args
                 \<and> column_arg pf c event (fs ! j) = Inr (args' ! (Suc i + j))"
    and keep: "\<forall>j<Suc i. args' ! j = (args[i := v]) ! j"
    by simp_all
  from keep i have here: "args' ! i = v" by simp
  have "i + j < length args \<and> column_arg pf c event ((f # fs) ! j) = Inr (args' ! (i + j))"
    if "j < length (f # fs)" for j
  proof (cases j)
    case 0
    with v here i show ?thesis by simp
  next
    case (Suc j')
    with that cols show ?thesis by simp
  qed
  moreover have "args' ! j = args ! j" if "j < i" for j
    using keep that by simp
  ultimately show ?case using len by blast
qed

text \<open>
  C8. In the argument row built for a record, the position of a field that the record
  lacks, or whose value is null, holds the entry of the default table for that column,
  and the empty string when the table has no entry for it.
\<close>

theorem build_args_missing_field:
  assumes "build_args pf c event = Inr args"
    and "i < length (fields_c c)"
    and "event (fields_c c ! i) = None \<or> event (fields_c c ! i) = Some VNil"
  shows "i < length args
     \<and> args ! i = (case defaultValue c (fields_c c ! i) of
                     Some v3 \<Rightarrow> v3
                   | None \<Rightarrow> VString [])"
proof -
  from assms(1)
  have "fill_args pf c event (replicate (fieldsLength c) VNil) 0 (fields_c c) = Inr args"
    by (simp add: build_args_def)
  from fill_args_nth [OF this] assms(2)
  have "length args = fieldsLength c" and "i < fieldsLength c"
    and "column_arg pf c event (fields_c c ! i) = Inr (args ! i)"
    by auto
  with column_arg_missing [of event "fields_c c ! i" pf c] assms(3) show ?thesis
    by (simp add: default_arg_def)
qed

theorem build_args_missing_field_witness:
  "build_args no_float ex_output [''id'' \<mapsto> VNil, ''name'' \<mapsto> VString ''bob'']
     = Inr [VInt 0, VString ''bob'', VString []]
   \<and> fields_c ex_output ! 0 = ''id'' \<and> fields_c ex_output ! 2 = ''tag''
   \<and> [''id'' \<mapsto> VNil, ''name'' \<mapsto> VString ''bob''] ''id'' = Some VNil
   \<and> [''id'' \<mapsto> VNil, ''name'' \<mapsto> VString ''bob''] ''tag'' = None
   \<and> defaultValue ex_output ''id'' = Some (VInt 0)
   \<and> defaultValue ex_output ''tag'' = None"
proof -
  let ?ev = "[''id'' \<mapsto> VNil, ''name'' \<mapsto> VString ''bob'']"
  have b: "build_args no_float ex_output ?ev = Inr [VInt 0, VString ''bob'', VString []]"
    by (simp add: build_args_def column_arg_def default_arg_def ex_defs ck_defs numeral_3_eq_3)
  have l0: "0 < length (fields_c ex_output)" and l2: "2 < length (fields_c ex_output)"
    by (simp_all add: ex_output_def)
  have m0: "?ev (fields_c ex_output ! 0) = None \<or> ?ev (fields_c ex_output ! 0) = Some VNil"
    by (simp add: ex_output_def)
  have m2: "?ev (fields_c ex_output ! 2) = None \<or> ?ev (fields_c ex_output ! 2) = Some VNil"
    by (simp add: ex_output_def)
  note a0 = build_args_missing_field [OF b l0 m0]
  note a2 = build_args_missing_field [OF b l2 m2]
  from a0 a2 b show ?thesis by (simp add: ex_output_def ex_defaults_def)
qed

section \<open>Properties of the buffer\<close>

text \<open>
  With a negative \<open>bulk_actions\<close> every call of \<open>Emit\<close> reaches the allocation and
  panics, and so does a tick on a buffer that is not empty; nothing is sent.
\<close>

lemma Emit_negative_capacity:
  "bulk_actions c < 0 \<Longrightarrow> Emit alloc c e = Inl (Panic ''makeslice: cap out of range'')"
  by (simp add: Emit_def make_events_def)

lemma flush_negative_capacity:
  "bulk_actions c < 0 \<Longrightarrow> events c \<noteq> [] \<Longrightarrow>
   flush alloc c = Inl (Panic ''makeslice: cap out of range'')"
  by (simp add: flush_def make_events_def)

lemma Emit_ok:
  "0 \<le> bulk_actions c \<Longrightarrow> alloc (bulk_actions c) \<Longrightarrow>
   Emit alloc c e =
     Inr (if int (length (events c)) + 1 < bulk_actions c
          then c\<lparr>events := events c @ [e]\<rparr>
          else c\<lparr>events := [], bulkChan := bulkChan c @ [events c @ [e]]\<rparr>)"
  by (simp add: Emit_def make_events_def Let_def)

lemma flush_ok:
  "0 \<le> bulk_actions c \<Longrightarrow> alloc (bulk_actions c) \<Longrightarrow>
   flush alloc c =
     Inr (if events c = [] then c
          else c\<lparr>events := [], bulkChan := bulkChan c @ [events c]\<rparr>)"
  by (simp add: flush_def make_events_def)

lemma step_ok:
  assumes "0 \<le> bulk_actions c" and "alloc (bulk_actions c)"
  shows "\<exists>c'. step alloc c a = Inr c' \<and> bulk_actions c' = bulk_actions c
           \<and> concat (bulkChan c') @ events c' = concat (bulkChan c) @ events c @ submitted [a]"
proof (cases a)
  case (Submit e)
  with Emit_ok [of c alloc e, OF assms] show ?thesis by simp
next
  case Tick
  with flush_ok [of c alloc, OF assms] show ?thesis by simp
qed

lemma run_ok:
  "0 \<le> bulk_actions c \<Longrightarrow> alloc (bulk_actions c) \<Longrightarrow>
   \<exists>c1. run alloc c as = Inr c1 \<and> bulk_actions c1 = bulk_actions c
      \<and> concat (bulkChan c1) @ events c1 = concat (bulkChan c) @ events c @ submitted as"
proof (induction as arbitrary: c)
  case Nil
  then show ?case by simp
next
  case (Cons a as)
  from step_ok [of c alloc a, OF Cons.prems] obtain c' where s: "step alloc c a = Inr c'"
    and b: "bulk_actions c' = bulk_actions c"
    and p: "concat (bulkChan c') @ events c' = concat (bulkChan c) @ events c @ submitted [a]"
    by blast
  from Cons.prems b have "0 \<le> bulk_actions c'" and "alloc (bulk_actions c')"
    by simp_all
  from Cons.IH [of c', OF this] obtain c1 where r: "run alloc c' as = Inr c1"
    and b1: "bulk_actions c1 = bulk_actions c'"
    and p1: "concat (bulkChan c1) @ events c1 = concat (bulkChan c') @ events c' @ submitted as"
    by blast
  have "submitted (a # as) = submitted [a] @ submitted as"
    by (cases a) simp_all
  with s r b b1 p p1 show ?case by simp
qed

lemma run_snoc:
  "run alloc c (as @ [a]) =
     (case run alloc c as of
        Inl x \<Rightarrow> Inl x
      | Inr c1 \<Rightarrow> step alloc c1 a)"
  by (induction as arbitrary: c) (simp_all split: sum.splits)

text \<open>
  C3. Take the calls of \<open>Emit\<close> and the timer ticks in the order in which they hold
  the mutex, with a configured capacity that is not negative and that the runtime can
  allocate. Every such run goes through without a panic, and after it the batches
  sent on the channel followed by the buffer are the submitted records, each once
  and in order. A submission that follows the run sends a batch when the buffer with
  the new record reaches \<open>bulk_actions\<close>, and only then; a tick that follows the run
  sends the buffer when it is not empty and changes nothing when it is empty; after
  the tick the buffer is empty and the batches alone are the submitted records.
\<close>

theorem buffer_dispatch_exactly_once:
  assumes "0 \<le> bulk_actions c" and "alloc (bulk_actions c)"
  shows "\<exists>c1. run alloc c as = Inr c1
     \<and> concat (bulkChan c1) @ events c1 = concat (bulkChan c) @ events c @ submitted as
     \<and> run alloc c (as @ [Submit e]) =
         Inr (if int (length (events c1)) + 1 < bulk_actions c
              then c1\<lparr>events := events c1 @ [e]\<rparr>
              else c1\<lparr>events := [], bulkChan := bulkChan c1 @ [events c1 @ [e]]\<rparr>)
     \<and> run alloc c (as @ [Tick]) =
         Inr (if events c1 = [] then c1
              else c1\<lparr>events := [], bulkChan := bulkChan c1 @ [events c1]\<rparr>)
     \<and> (\<exists>c2. run alloc c (as @ [Tick]) = Inr c2 \<and> events c2 = []
            \<and> concat (bulkChan c2) = concat (bulkChan c) @ events c @ submitted as)"
proof -
  from run_ok [of c alloc as, OF assms] obtain c1 where r: "run alloc c as = Inr c1"
    and b: "bulk_actions c1 = bulk_actions c"
    and p: "concat (bulkChan c1) @ events c1 = concat (bulkChan c) @ events c @ submitted as"
    by blast
  from assms b have ok: "0 \<le> bulk_actions c1" "alloc (bulk_actions c1)"
    by simp_all
  have sub: "run alloc c (as @ [Submit e]) =
         Inr (if int (length (events c1)) + 1 < bulk_actions c
              then c1\<lparr>events := events c1 @ [e]\<rparr>
              else c1\<lparr>events := [], bulkChan := bulkChan c1 @ [events c1 @ [e]]\<rparr>)"
    using Emit_ok [of c1 alloc e, OF ok] r b by (simp add: run_snoc)
  have tick: "run alloc c (as @ [Tick]) =
         Inr (if events c1 = [] then c1
              else c1\<lparr>events := [], bulkChan := bulkChan c1 @ [events c1]\<rparr>)"
    using flush_ok [of c1 alloc, OF ok] r by (simp add: run_snoc)
  let ?c2 = "if events c1 = [] then c1
             else c1\<lparr>events := [], bulkChan := bulkChan c1 @ [events c1]\<rparr>"
  have e2: "events ?c2 = []" by simp
  have "concat (bulkChan ?c2) = concat (bulkChan c1) @ events c1" by simp
  with p have p2: "concat (bulkChan ?c2) = concat (bulkChan c) @ events c @ submitted as"
    by simp
  from tick e2 p2
  have "\<exists>c2. run alloc c (as @ [Tick]) = Inr c2 \<and> events c2 = []
            \<and> concat (bulkChan c2) = concat (bulkChan c) @ events c @ submitted as"
    by blast
  with r p sub tick show ?thesis by blast
qed

theorem buffer_dispatch_exactly_once_witness:
  "0 \<le> bulk_actions ex_output \<and> ex_alloc (bulk_actions ex_output)
   \<and> run ex_alloc ex_output
         [Submit (ex_event ''1''), Submit (ex_event ''2''), Tick, Submit (ex_event ''3'')]
       = Inr (ex_output\<lparr>events := [ex_event ''3''],
                       bulkChan := [[ex_event ''1'', ex_event ''2'']]\<rparr>)
   \<and> run ex_alloc ex_output
         ([Submit (ex_event ''1''), Submit (ex_event ''2''), Tick, Submit (ex_event ''3'')]
          @ [Tick])
       = Inr (ex_output\<lparr>events := [],
                       bulkChan := [[ex_event ''1'', ex_event ''2''], [ex_event ''3'']]\<rparr>)"
proof -
  let ?as = "[Submit (ex_event ''1''), Submit (ex_event ''2''), Tick, Submit (ex_event ''3'')]"
  have h1: "0 \<le> bulk_actions ex_output"
    by (simp add: ex_output_def)
  have h2: "ex_alloc (bulk_actions ex_output)"
    by (simp add: ex_output_def ex_alloc_def)
  have r: "run ex_alloc ex_output ?as
      = Inr (ex_output\<lparr>events := [ex_event ''3''],
                      bulkChan := [[ex_event ''1'', ex_event ''2'']]\<rparr>)"
    by (simp add: Emit_def flush_def make_events_def ex_alloc_def ex_output_def)
  from buffer_dispatch_exactly_once [of ex_output ex_alloc ?as, OF h1 h2] r
  have "run ex_alloc ex_output (?as @ [Tick])
      = Inr (ex_output\<lparr>events := [],
                      bulkChan := [[ex_event ''1'', ex_event ''2''], [ex_event ''3'']]\<rparr>)"
    by (auto simp: ex_output_def)
  with h1 h2 r show ?thesis by blast
qed

section \<open>Properties of \<open>innerFlush\<close>\<close>

lemma innerFlush_loop_first_success:
  "cursor sel < length (hosts sel) \<Longrightarrow>
   (\<forall>j<k. \<not> begin_ok w (k0 + j) (host_at sel j)) \<Longrightarrow>
   begin_ok w (k0 + k) (host_at sel k) \<Longrightarrow>
   innerFlush_loop pf c w evs k0 sel tabs
     = Some (fst (flush_tx pf c w (host_at sel k) evs tabs), advance sel (Suc k),
             snd (flush_tx pf c w (host_at sel k) evs tabs))"
proof (induction k arbitrary: k0 sel)
  case 0
  then show ?case
    by (subst innerFlush_loop.simps) (simp add: Next_valid split: prod.splits)
next
  case (Suc k)
  from Suc.prems(2) have "\<not> begin_ok w (k0 + 0) (host_at sel 0)"
    by blast
  then have fail0: "\<not> begin_ok w k0 (host_at sel 0)"
    by simp
  have step: "innerFlush_loop pf c w evs k0 sel tabs
      = innerFlush_loop pf c w evs (Suc k0) (advance sel (Suc 0)) tabs"
    using fail0 Suc.prems(1) by (subst innerFlush_loop.simps) (simp add: Next_valid)
  have fails: "\<forall>j<k. \<not> begin_ok w (Suc k0 + j) (host_at (advance sel (Suc 0)) j)"
    using Suc.prems(2) by (auto simp: host_at_advance)
  have ok: "begin_ok w (Suc k0 + k) (host_at (advance sel (Suc 0)) k)"
    using Suc.prems(3) by (simp add: host_at_advance)
  from Suc.IH [OF advance_valid [OF Suc.prems(1)] fails ok] step
  show ?case by (simp add: host_at_advance advance_advance)
qed

lemma innerFlush_loop_Some_begin:
  "innerFlush_loop pf c w evs k0 sel tabs = Some r \<Longrightarrow>
   cursor sel < length (hosts sel) \<longrightarrow> (\<exists>k. begin_ok w (k0 + k) (host_at sel k))"
proof (induction pf c w evs k0 sel tabs r rule: innerFlush_loop.raw_induct [rotated, consumes 1])
  case (1 f pf c w evs k0 sel tabs r)
  show ?case
  proof
    assume valid: "cursor sel < length (hosts sel)"
    show "\<exists>k. begin_ok w (k0 + k) (host_at sel k)"
    proof (cases "begin_ok w k0 (host_at sel 0)")
      case True
      then have "begin_ok w (k0 + 0) (host_at sel 0)" by simp
      then show ?thesis by blast
    next
      case False
      with 1(2) valid have "f pf c w evs (Suc k0) (advance sel (Suc 0)) tabs = Some r"
        by (simp add: Next_valid)
      from 1(1) [OF this] advance_valid [OF valid]
      obtain k where "begin_ok w (Suc k0 + k) (host_at (advance sel (Suc 0)) k)" by blast
      then have "begin_ok w (k0 + Suc k) (host_at sel (Suc k))"
        by (simp add: host_at_advance)
      then show ?thesis by blast
    qed
  qed
qed

lemma innerFlush_loop_shape:
  "innerFlush_loop pf c w evs k0 sel tabs = Some r \<Longrightarrow>
   (\<exists>h. fst r = fst (flush_tx pf c w h evs tabs) \<and> snd (snd r) = snd (flush_tx pf c w h evs tabs))
   \<or> ((\<exists>a. fst r = Aborted a) \<and> snd (snd r) = tabs)"
proof (induction pf c w evs k0 sel tabs r rule: innerFlush_loop.raw_induct [rotated, consumes 1])
  case (1 f pf c w evs k0 sel tabs r)
  show ?case
  proof (cases "Next sel")
    case (Pair ho sel')
    show ?thesis
    proof (cases ho)
      case None
      with 1(2) Pair show ?thesis by auto
    next
      case (Some h)
      show ?thesis
      proof (cases "begin_ok w k0 h")
        case True
        with 1(2) Pair Some have "fst r = fst (flush_tx pf c w h evs tabs)
          \<and> snd (snd r) = snd (flush_tx pf c w h evs tabs)"
          by (auto split: prod.splits)
        then show ?thesis by blast
      next
        case False
        with 1(2) Pair Some have "f pf c w evs (Suc k0) sel' tabs = Some r" by simp
        from 1(1) [OF this] show ?thesis .
      qed
    qed
  qed
qed

lemma column_arg_same:
  "desc c' = desc c \<Longrightarrow> defaultValue c' = defaultValue c \<Longrightarrow>
   column_arg pf c' event field = column_arg pf c event field"
  by (simp add: column_arg_def default_arg_def cong: option.case_cong if_cong)

lemma fill_args_same:
  "desc c' = desc c \<Longrightarrow> defaultValue c' = defaultValue c \<Longrightarrow>
   fill_args pf c' event args i fs = fill_args pf c event args i fs"
  by (induction fs arbitrary: args i)
    (simp_all add: column_arg_same [of c' c] cong: sum.case_cong if_cong)

lemma build_args_execution_id:
  "build_args pf (c\<lparr>execution_id := x\<rparr>) event = build_args pf c event"
  by (simp add: build_args_def fill_args_same [of "c\<lparr>execution_id := x\<rparr>" c])

lemma exec_rows_execution_id:
  "exec_rows pf (c\<lparr>execution_id := x\<rparr>) w i evs t = exec_rows pf c w i evs t"
  by (induction evs arbitrary: i t)
    (simp_all add: build_args_execution_id cong: sum.case_cong if_cong)

lemma flush_tx_execution_id:
  "flush_tx pf (c\<lparr>execution_id := x\<rparr>) w h evs tabs = flush_tx pf c w h evs tabs"
  by (simp add: flush_tx_def Let_def exec_rows_execution_id)

lemma exec_rows_Inr:
  "exec_rows pf c w i evs t = Inr t' \<Longrightarrow>
   (\<forall>j<length evs. exec_ok w (i + j))
   \<and> (\<exists>rows. map (build_args pf c) evs = map Inr rows \<and> t' = t\<lparr>pending := pending t @ rows\<rparr>)"
proof (induction evs arbitrary: i t)
  case Nil
  then show ?case by simp
next
  case (Cons ev evs)
  from Cons.prems obtain args where args: "build_args pf c ev = Inr args"
    and ok: "exec_ok w i"
    and rest: "exec_rows pf c w (Suc i) evs (tx_Exec t args) = Inr t'"
    by (auto split: sum.splits if_splits)
  from Cons.IH [OF rest] obtain rows where oks: "\<forall>j<length evs. exec_ok w (Suc i + j)"
    and rows: "map (build_args pf c) evs = map Inr rows"
    and t': "t' = (tx_Exec t args)\<lparr>pending := pending (tx_Exec t args) @ rows\<rparr>"
    by blast
  have "exec_ok w (i + j)" if "j < length (ev # evs)" for j
    using that ok oks by (cases j) auto
  moreover have "map (build_args pf c) (ev # evs) = map Inr (args # rows)"
    using args rows by simp
  moreover have "t' = t\<lparr>pending := pending t @ (args # rows)\<rparr>"
    using t' by (simp add: tx_Exec_def)
  ultimately show ?case by blast
qed

lemma exec_rows_Inl:
  "exec_rows pf c w i evs t = Inl e \<Longrightarrow> (\<exists>a. e = Aborted a) \<or> (\<exists>j. e = ExecFailed j)"
  by (induction evs arbitrary: i t) (auto split: sum.splits if_splits)

lemma flush_tx_outcome:
  assumes "flush_tx pf c w h evs tabs = (e, tabs')"
  shows "(e = Committed \<and> prepare_ok w \<and> commit_ok w \<and> (\<forall>i<length evs. exec_ok w i)
           \<and> (\<exists>rows. map (build_args pf c) evs = map Inr rows
                 \<and> tabs' = tabs(h := tabs h @ rows)))
         \<or> (e \<noteq> Committed \<and> tabs' = tabs)"
proof (cases "prepare_ok w")
  case False
  with assms show ?thesis by (auto simp: flush_tx_def tx_Rollback_def)
next
  case True
  show ?thesis
  proof (cases "exec_rows pf c w 0 evs (tx_Begin h)")
    case (Inl e')
    from exec_rows_Inl [OF Inl] assms True Inl show ?thesis
      by (auto simp: flush_tx_def tx_Rollback_def)
  next
    case (Inr t')
    from exec_rows_Inr [OF Inr] obtain rows where oks: "\<forall>j<length evs. exec_ok w j"
      and rows: "map (build_args pf c) evs = map Inr rows"
      and t': "t' = (tx_Begin h)\<lparr>pending := pending (tx_Begin h) @ rows\<rparr>"
      by auto
    show ?thesis
    proof (cases "commit_ok w")
      case True
      with assms \<open>prepare_ok w\<close> Inr t' have "e = Committed" and "tabs' = tabs(h := tabs h @ rows)"
        by (auto simp: flush_tx_def tx_Commit_def tx_Rollback_def tx_Begin_def)
      with True \<open>prepare_ok w\<close> oks rows show ?thesis by blast
    next
      case False
      with assms \<open>prepare_ok w\<close> Inr t' show ?thesis
        by (auto simp: flush_tx_def tx_Commit_def tx_Rollback_def tx_Begin_def)
    qed
  qed
qed

lemma ex_flush_tx_committed:
  "flush_tx no_float ex_output (ex_replicas 5) (Suc 0) [ex_event ''7'', ex_event ''8''] ex_tables
     = (Committed, ex_tables(1 := [[VUint64 7, VString [], VString []],
                                   [VUint64 8, VString [], VString []]]))"
  by (simp add: flush_tx_def build_args_def column_arg_def default_arg_def ex_defs ck_defs
      parse_defs numeral_3_eq_3 tx_Begin_def tx_Exec_def tx_Commit_def tx_Rollback_def)

lemma ex_innerFlush_exec_failed:
  "innerFlush no_float ex_output (ex_replicas 1) [ex_event ''7'', ex_event ''8''] ex_tables
     = Some (ExecFailed 1, ex_output\<lparr>execution_id := 1, dbSelector := ex_selector\<rparr>, ex_tables)"
  by (simp add: innerFlush_def innerFlush_loop.simps Next_def flush_tx_def build_args_def
      column_arg_def default_arg_def ex_defs ck_defs parse_defs numeral_3_eq_3
      tx_Begin_def tx_Exec_def tx_Commit_def tx_Rollback_def)

text \<open>
  C4. When \<open>innerFlush\<close> returns, the tables of the replicas are either as before, or
  as before with the argument rows of all records of the batch appended, in order and
  once, to one replica; the second only when the outcome is \<open>Committed\<close>. A failed
  \<open>Exec\<close> of any row leaves the tables as before, and so does a failed \<open>Commit\<close>. The
  batch is not put back: the buffer and the channel of the instance are unchanged.
\<close>

theorem innerFlush_committed_or_discarded:
  assumes "innerFlush pf c w evs tabs = Some (e, c', tabs')"
  shows "((e = Committed
            \<and> (\<exists>h rows. map (build_args pf c) evs = map Inr rows
                  \<and> tabs' = tabs(h := tabs h @ rows)))
          \<or> (e \<noteq> Committed \<and> tabs' = tabs))
     \<and> ((\<exists>i<length evs. \<not> exec_ok w i) \<longrightarrow> e \<noteq> Committed \<and> tabs' = tabs)
     \<and> (\<not> commit_ok w \<longrightarrow> e \<noteq> Committed \<and> tabs' = tabs)
     \<and> events c' = events c \<and> bulkChan c' = bulkChan c"
proof -
  let ?c1 = "c\<lparr>execution_id := execution_id c + 1\<rparr>"
  from assms obtain sel' where
    loop: "innerFlush_loop pf ?c1 w evs 0 (dbSelector ?c1) tabs = Some (e, sel', tabs')"
    and c': "c' = ?c1\<lparr>dbSelector := sel'\<rparr>"
    by (auto simp: innerFlush_def Let_def split: option.splits)
  from c' have keep: "events c' = events c \<and> bulkChan c' = bulkChan c"
    by simp
  from innerFlush_loop_shape [OF loop]
  consider (tx) h where "flush_tx pf c w h evs tabs = (e, tabs')"
    | (panic) a where "e = Aborted a" and "tabs' = tabs"
    by (auto simp: flush_tx_execution_id prod_eq_iff)
  then show ?thesis
  proof cases
    case tx
    from flush_tx_outcome [OF tx] keep show ?thesis by blast
  next
    case panic
    with keep show ?thesis by simp
  qed
qed

theorem innerFlush_committed_or_discarded_witness:
  "innerFlush no_float ex_output (ex_replicas 1) [ex_event ''7'', ex_event ''8''] ex_tables
     = Some (ExecFailed 1, ex_output\<lparr>execution_id := 1, dbSelector := ex_selector\<rparr>, ex_tables)
   \<and> \<not> exec_ok (ex_replicas 1) 1
   \<and> ExecFailed 1 \<noteq> Committed
   \<and> events (ex_output\<lparr>execution_id := 1, dbSelector := ex_selector\<rparr>) = events ex_output
   \<and> bulkChan (ex_output\<lparr>execution_id := 1, dbSelector := ex_selector\<rparr>) = bulkChan ex_output"
proof -
  have x: "\<not> exec_ok (ex_replicas 1) 1"
    by (simp add: ex_replicas_def)
  from innerFlush_committed_or_discarded [OF ex_innerFlush_exec_failed] x
    ex_innerFlush_exec_failed
  show ?thesis by simp
qed

text \<open>
  C5. With a selector that holds a replica at its cursor, \<open>innerFlush\<close> returns if and
  only if some call of \<open>Begin\<close> succeeds. Every failed \<open>Begin\<close> is followed by a call
  on the next replica with the batch untouched; when the \<open>k\<close>-th call is the first to
  succeed, the result is that of the one transaction on that replica, which writes
  the whole batch or nothing. When every \<open>Begin\<close> fails the function never returns.
\<close>

theorem innerFlush_retries_until_begin:
  assumes "cursor (dbSelector c) < length (hosts (dbSelector c))"
  shows "(innerFlush pf c w evs tabs \<noteq> None
            \<longleftrightarrow> (\<exists>k. begin_ok w k (host_at (dbSelector c) k)))
     \<and> ((\<forall>j<k. \<not> begin_ok w j (host_at (dbSelector c) j))
          \<and> begin_ok w k (host_at (dbSelector c) k)
        \<longrightarrow> innerFlush pf c w evs tabs
              = Some (fst (flush_tx pf c w (host_at (dbSelector c) k) evs tabs),
                      c\<lparr>execution_id := execution_id c + 1,
                        dbSelector := advance (dbSelector c) (Suc k)\<rparr>,
                      snd (flush_tx pf c w (host_at (dbSelector c) k) evs tabs)))"
proof -
  let ?c1 = "c\<lparr>execution_id := execution_id c + 1\<rparr>"
  let ?sel = "dbSelector c"
  have first: "innerFlush pf c w evs tabs
        = Some (fst (flush_tx pf c w (host_at ?sel n) evs tabs),
                c\<lparr>execution_id := execution_id c + 1, dbSelector := advance ?sel (Suc n)\<rparr>,
                snd (flush_tx pf c w (host_at ?sel n) evs tabs))"
    if fails: "\<forall>j<n. \<not> begin_ok w j (host_at ?sel j)" and ok: "begin_ok w n (host_at ?sel n)"
    for n
  proof -
    from fails have f: "\<forall>j<n. \<not> begin_ok w (0 + j) (host_at ?sel j)" by simp
    from ok have s: "begin_ok w (0 + n) (host_at ?sel n)" by simp
    from innerFlush_loop_first_success [OF assms f s, of pf ?c1 evs tabs]
    show ?thesis by (simp add: innerFlush_def flush_tx_execution_id)
  qed
  have returns: "innerFlush pf c w evs tabs \<noteq> None"
    if ex: "\<exists>n. begin_ok w n (host_at ?sel n)"
  proof -
    from ex obtain n where "begin_ok w n (host_at ?sel n)"
      and "\<forall>j<n. \<not> begin_ok w j (host_at ?sel j)"
      using exists_least_iff [of "\<lambda>n. begin_ok w n (host_at ?sel n)"] by blast
    from first [OF this(2) this(1)] show ?thesis by simp
  qed
  have begun: "\<exists>n. begin_ok w n (host_at ?sel n)"
    if ret: "innerFlush pf c w evs tabs \<noteq> None"
  proof -
    from ret obtain r where "innerFlush_loop pf ?c1 w evs 0 (dbSelector ?c1) tabs = Some r"
      by (auto simp: innerFlush_def Let_def split: option.splits)
    from innerFlush_loop_Some_begin [OF this] assms show ?thesis by simp
  qed
  from first returns begun show ?thesis by blast
qed

theorem innerFlush_retries_until_begin_witness:
  "cursor (dbSelector ex_output) < length (hosts (dbSelector ex_output))
   \<and> \<not> begin_ok (ex_replicas 5) 0 (host_at (dbSelector ex_output) 0)
   \<and> begin_ok (ex_replicas 5) (Suc 0) (host_at (dbSelector ex_output) (Suc 0))
   \<and> innerFlush no_float ex_output (ex_replicas 5) [ex_event ''7'', ex_event ''8''] ex_tables
       = Some (Committed, ex_output\<lparr>execution_id := 1, dbSelector := ex_selector\<rparr>,
               ex_tables(1 := [[VUint64 7, VString [], VString []],
                               [VUint64 8, VString [], VString []]]))
   \<and> (\<forall>k. \<not> begin_ok ex_down k (host_at (dbSelector ex_output) k))
   \<and> innerFlush no_float ex_output ex_down [ex_event ''7'', ex_event ''8''] ex_tables = None"
proof -
  let ?evs = "[ex_event ''7'', ex_event ''8'']"
  have v: "cursor (dbSelector ex_output) < length (hosts (dbSelector ex_output))"
    by (simp add: ex_output_def ex_selector_def)
  have h0: "host_at (dbSelector ex_output) 0 = 0"
    by (simp add: ex_output_def ex_selector_def host_at_def)
  have h1: "host_at (dbSelector ex_output) (Suc 0) = Suc 0"
    by (simp add: ex_output_def ex_selector_def host_at_def mod_Suc)
  have f: "\<not> begin_ok (ex_replicas 5) 0 (host_at (dbSelector ex_output) 0)"
    by (simp add: h0 ex_replicas_def)
  then have fs: "\<forall>j<Suc 0. \<not> begin_ok (ex_replicas 5) j (host_at (dbSelector ex_output) j)"
    by simp
  have s: "begin_ok (ex_replicas 5) (Suc 0) (host_at (dbSelector ex_output) (Suc 0))"
    by (simp add: h1 ex_replicas_def)
  have a: "advance (dbSelector ex_output) (Suc (Suc 0)) = ex_selector"
    by (simp add: advance_def ex_output_def ex_selector_def mod_Suc)
  have d: "\<forall>k. \<not> begin_ok ex_down k (host_at (dbSelector ex_output) k)"
    by (simp add: ex_down_def)
  from innerFlush_retries_until_begin [OF v, of no_float "ex_replicas 5" ?evs ex_tables "Suc 0"]
    fs s
  have "innerFlush no_float ex_output (ex_replicas 5) ?evs ex_tables
      = Some (fst (flush_tx no_float ex_output (ex_replicas 5)
                     (host_at (dbSelector ex_output) (Suc 0)) ?evs ex_tables),
              ex_output\<lparr>execution_id := execution_id ex_output + 1,
                        dbSelector := advance (dbSelector ex_output) (Suc (Suc 0))\<rparr>,
              snd (flush_tx no_float ex_output (ex_replicas 5)
                     (host_at (dbSelector ex_output) (Suc 0)) ?evs ex_tables))"
    by blast
  then have committed: "innerFlush no_float ex_output (ex_replicas 5) ?evs ex_tables
      = Some (Committed, ex_output\<lparr>execution_id := 1, dbSelector := ex_selector\<rparr>,
              ex_tables(1 := [[VUint64 7, VString [], VString []],
                              [VUint64 8, VString [], VString []]]))"
    unfolding h1 a ex_flush_tx_committed by (simp add: ex_output_def)
  from innerFlush_retries_until_begin [OF v, of no_float ex_down ?evs ex_tables 0] d
  have never: "innerFlush no_float ex_output ex_down ?evs ex_tables = None"
    by blast
  from v f s committed d never show ?thesis by blast
qed

end
